theory Spec2Isabelle
  imports Complex_Main
begin

section \<open>Values, errors and calls to the outside\<close>

text \<open>
  The loader is written against pandas and psycopg2. Cells of a data frame, parameters of
  a statement and columns of a fetched row are dynamically typed values: a missing cell
  (pandas' NaN/NaT, Python's \<open>None\<close>) is \<open>JNull\<close>, a \<open>Timestamp\<close> is \<open>JTime\<close> with its
  count of nanoseconds since the epoch, a float is the rational it denotes.
\<close>

datatype jval = JNull | JBool bool | JInt int | JFloat rat | JStr string | JTime int

type_synonym json_obj = "(string \<times> jval) list"

datatype error =
    FileError
  | ParseError
  | KeyError "string list"
  | AttributeError string
  | IndexError
  | ValueError
  | TypeError
  | OutOfBoundsDatetime
  | DbError string

text \<open>
  The statements of \<open>sql_queries\<close>, imported by name in \<open>etl.py\<close>; only their names
  are used here.
\<close>

datatype query =
    song_table_insert
  | artist_table_insert
  | time_table_insert
  | user_table_insert
  | songplay_table_insert
  | song_select

text \<open>
  Every call that leaves the process is recorded, in order, at the moment it is made:
  a call that raises is in the record too.
\<close>

datatype effect =
    Connect string
  | Cursor
  | Execute query "jval list"
  | Commit
  | Print string
  | Close

datatype outcome = Done "effect list" | Raised error "effect list"

text \<open>
  The database is not part of the program. Whether a call raises, and what
  \<open>cur.fetchone()\<close> returns, may depend on everything sent so far.
\<close>

record backend =
  raises :: "effect list \<Rightarrow> effect \<Rightarrow> error option"
  fetchone :: "effect list \<Rightarrow> error + jval list option"

definition perform :: "backend \<Rightarrow> effect \<Rightarrow> effect list \<Rightarrow> outcome" where
  "perform b c tr =
     (case raises b tr c of
        None \<Rightarrow> Done (tr @ [c])
      | Some e \<Rightarrow> Raised e (tr @ [c]))"

fun trace_of :: "outcome \<Rightarrow> effect list" where
  "trace_of (Done tr) = tr"
| "trace_of (Raised e tr) = tr"

section \<open>Files and data frames\<close>

datatype content = Malformed | Lines "json_obj list"

datatype node = File content | Dir "(string \<times> node) list"

type_synonym path = "string list"

fun lookup_node :: "node \<Rightarrow> path \<Rightarrow> node option" where
  "lookup_node n [] = Some n"
| "lookup_node (File c) (x # p) = None"
| "lookup_node (Dir es) (x # p) =
     (case map_of es x of None \<Rightarrow> None | Some n \<Rightarrow> lookup_node n p)"

record frame =
  columns :: "string list"
  rows :: "json_obj list"

text \<open>
  \<open>pd.read_json(filepath, lines=True)\<close>: one row per JSON object, one column per key
  that occurs in any object. The objects are taken as parsed: the type inference of
  \<open>read_json\<close> is not modelled.
\<close>

definition read_json :: "node \<Rightarrow> path \<Rightarrow> error + frame" where
  "read_json fs p =
     (case lookup_node fs p of
        None \<Rightarrow> Inl FileError
      | Some (Dir es) \<Rightarrow> Inl FileError
      | Some (File Malformed) \<Rightarrow> Inl ParseError
      | Some (File (Lines os)) \<Rightarrow>
          Inr \<lparr>columns = remdups (concat (map (map fst) os)), rows = os\<rparr>)"

definition cell :: "json_obj \<Rightarrow> string \<Rightarrow> jval" where
  "cell r c = (case map_of r c of None \<Rightarrow> JNull | Some v \<Rightarrow> v)"

text \<open>\<open>df[[c1, ..., cn]].values\<close>: a \<open>KeyError\<close> naming the columns that are missing.\<close>

definition select_cols :: "frame \<Rightarrow> string list \<Rightarrow> error + jval list list" where
  "select_cols df cs =
     (case filter (\<lambda>c. c \<notin> set (columns df)) cs of
        [] \<Rightarrow> Inr (map (\<lambda>r. map (cell r) cs) (rows df))
      | m # ms \<Rightarrow> Inl (KeyError (m # ms)))"

section \<open>The song record extractor\<close>

definition song_cols :: "string list" where
  "song_cols = [''song_id'', ''title'', ''artist_id'', ''year'', ''duration'']"

definition artist_cols :: "string list" where
  "artist_cols = [''artist_id'', ''artist_name'', ''artist_location'',
                  ''artist_latitude'', ''artist_longitude'']"

definition process_song_file :: "backend \<Rightarrow> node \<Rightarrow> path \<Rightarrow> effect list \<Rightarrow> outcome" where
  "process_song_file b fs filepath tr =
     (case read_json fs filepath of
        Inl e \<Rightarrow> Raised e tr
      | Inr df \<Rightarrow>
     (case select_cols df song_cols of
        Inl e \<Rightarrow> Raised e tr
      | Inr [] \<Rightarrow> Raised IndexError tr
      | Inr (song_data # _) \<Rightarrow>
     (case perform b (Execute song_table_insert song_data) tr of
        Raised e tr1 \<Rightarrow> Raised e tr1
      | Done tr1 \<Rightarrow>
     (case select_cols df artist_cols of
        Inl e \<Rightarrow> Raised e tr1
      | Inr vs \<Rightarrow> perform b (Execute artist_table_insert (concat vs)) tr1))))"

section \<open>Timestamps\<close>

text \<open>
  \<open>pd.to_datetime(x, unit='ms')\<close>, used on the \<open>ts\<close> column (line 53) and again on
  each row's \<open>ts\<close> (line 83). An integer is a count of milliseconds; a missing value
  becomes NaT; a count that does not fit 64 bits of nanoseconds raises. A float is cut to
  whole nanoseconds here: the library's float rounding is not modelled.
\<close>

definition in_bounds :: "int \<Rightarrow> bool" where
  "in_bounds ns \<longleftrightarrow> - (2 ^ 63) < ns \<and> ns < 2 ^ 63"

definition to_datetime_ms :: "jval \<Rightarrow> error + jval" where
  "to_datetime_ms v =
     (case v of
        JNull \<Rightarrow> Inr JNull
      | JBool x \<Rightarrow> Inl TypeError
      | JInt n \<Rightarrow>
          (if in_bounds (n * 1000000) then Inr (JTime (n * 1000000))
           else Inl OutOfBoundsDatetime)
      | JFloat r \<Rightarrow>
          (if in_bounds \<lfloor>r * 1000000\<rfloor> then Inr (JTime \<lfloor>r * 1000000\<rfloor>)
           else Inl OutOfBoundsDatetime)
      | JStr s \<Rightarrow> Inl ValueError
      | JTime ns \<Rightarrow> Inr (JTime ns))"

text \<open>
  The fields of the \<open>.dt\<close> accessor, on the proleptic Gregorian calendar in UTC.
  \<open>civil\<close> turns a count of days since 1970-01-01 into (year, month, day).
\<close>

definition days_of :: "int \<Rightarrow> int" where
  "days_of ns = ns div 86400000000000"

definition civil :: "int \<Rightarrow> int \<times> int \<times> int" where
  "civil d =
     (let z = d + 719468;
          era = z div 146097;
          doe = z mod 146097;
          yoe = (doe - doe div 1460 + doe div 36524 - doe div 146096) div 365;
          doy = doe - (365 * yoe + yoe div 4 - yoe div 100);
          mp = (5 * doy + 2) div 153;
          m = (if mp < 10 then mp + 3 else mp - 9);
          y = yoe + era * 400
      in (if m \<le> 2 then y + 1 else y, m, doy - (153 * mp + 2) div 5 + 1))"

definition hour_of :: "int \<Rightarrow> int" where
  "hour_of ns = (ns div 3600000000000) mod 24"

definition year_of :: "int \<Rightarrow> int" where
  "year_of ns = fst (civil (days_of ns))"

definition month_of :: "int \<Rightarrow> int" where
  "month_of ns = fst (snd (civil (days_of ns)))"

definition day_of :: "int \<Rightarrow> int" where
  "day_of ns = snd (snd (civil (days_of ns)))"

text \<open>Monday is 0; 1970-01-01 was a Thursday.\<close>

definition weekday_of :: "int \<Rightarrow> int" where
  "weekday_of ns = (days_of ns + 3) mod 7"

definition is_leap :: "int \<Rightarrow> bool" where
  "is_leap y \<longleftrightarrow> y mod 4 = 0 \<and> (y mod 100 \<noteq> 0 \<or> y mod 400 = 0)"

definition ordinal :: "int \<Rightarrow> int \<Rightarrow> int \<Rightarrow> int" where
  "ordinal y m d =
     [0, 31, 59, 90, 120, 151, 181, 212, 243, 273, 304, 334] ! nat (m - 1) + d
       + (if is_leap y \<and> 2 < m then 1 else 0)"

definition weeks_in_year :: "int \<Rightarrow> int" where
  "weeks_in_year y =
     (let p = (\<lambda>x. (x + x div 4 - x div 100 + x div 400) mod 7)
      in if p y = 4 \<or> p (y - 1) = 3 then 53 else 52)"

text \<open>\<open>Series.dt.week\<close>: the ISO 8601 week number.\<close>

definition week_of :: "int \<Rightarrow> int" where
  "week_of ns =
     (let y = year_of ns;
          w = (ordinal y (month_of ns) (day_of ns) - (weekday_of ns + 1) + 10) div 7
      in if w < 1 then weeks_in_year (y - 1)
         else if weeks_in_year y < w then 1
         else w)"

text \<open>A field of NaT is missing.\<close>

definition dt_part :: "(int \<Rightarrow> int) \<Rightarrow> jval \<Rightarrow> jval" where
  "dt_part f t = (case t of JTime ns \<Rightarrow> JInt (f ns) | _ \<Rightarrow> JNull)"

section \<open>Sequencing\<close>

definition need :: "error + 'a \<Rightarrow> effect list \<Rightarrow> ('a \<Rightarrow> outcome) \<Rightarrow> outcome" where
  "need x tr k = (case x of Inl e \<Rightarrow> Raised e tr | Inr v \<Rightarrow> k v)"

definition and_then :: "outcome \<Rightarrow> (effect list \<Rightarrow> outcome) \<Rightarrow> outcome" where
  "and_then r k = (case r of Raised e tr \<Rightarrow> Raised e tr | Done tr \<Rightarrow> k tr)"

text \<open>A \<open>for\<close> loop whose body may raise.\<close>

fun for_each :: "('a \<Rightarrow> effect list \<Rightarrow> outcome) \<Rightarrow> 'a list \<Rightarrow> effect list \<Rightarrow> outcome" where
  "for_each body [] tr = Done tr"
| "for_each body (x # xs) tr = and_then (body x tr) (for_each body xs)"

section \<open>The log record extractor\<close>

definition user_cols :: "string list" where
  "user_cols = [''userId'', ''firstName'', ''lastName'', ''gender'', ''level'']"

text \<open>\<open>df[c]\<close>.\<close>

definition column :: "frame \<Rightarrow> string \<Rightarrow> error + jval list" where
  "column df c =
     (if c \<in> set (columns df) then Inr (map (\<lambda>r. cell r c) (rows df))
      else Inl (KeyError [c]))"

text \<open>\<open>row.c\<close>, for a row of \<open>df.iterrows()\<close>.\<close>

definition attr :: "frame \<Rightarrow> json_obj \<Rightarrow> string \<Rightarrow> error + jval" where
  "attr df row c =
     (if c \<in> set (columns df) then Inr (cell row c) else Inl (AttributeError c))"

definition is_next_song :: "json_obj \<Rightarrow> bool" where
  "is_next_song r \<longleftrightarrow> cell r ''page'' = JStr ''NextSong''"

text \<open>\<open>df[df['page'] == 'NextSong']\<close>.\<close>

definition next_song :: "frame \<Rightarrow> error + frame" where
  "next_song df =
     (case column df ''page'' of
        Inl e \<Rightarrow> Inl e
      | Inr pages \<Rightarrow> Inr (df\<lparr>rows := filter is_next_song (rows df)\<rparr>))"

fun convert_all :: "jval list \<Rightarrow> error + jval list" where
  "convert_all [] = Inr []"
| "convert_all (v # vs) =
     (case to_datetime_ms v of
        Inl e \<Rightarrow> Inl e
      | Inr t \<Rightarrow> (case convert_all vs of Inl e \<Rightarrow> Inl e | Inr ts \<Rightarrow> Inr (t # ts)))"

definition time_row :: "jval \<Rightarrow> jval list" where
  "time_row t =
     [t, dt_part hour_of t, dt_part day_of t, dt_part week_of t,
      dt_part month_of t, dt_part year_of t, dt_part weekday_of t]"

text \<open>
  \<open>if results: songid, artistid = results else: songid, artistid = None, None\<close>.
  An empty tuple is false; unpacking a tuple that has not two items raises.
\<close>

fun resolve :: "jval list option \<Rightarrow> error + jval \<times> jval" where
  "resolve None = Inr (JNull, JNull)"
| "resolve (Some []) = Inr (JNull, JNull)"
| "resolve (Some [s, a]) = Inr (s, a)"
| "resolve (Some xs) = Inl ValueError"

text \<open>The body of the loop of lines 71 to 84.\<close>

definition songplay_body :: "backend \<Rightarrow> frame \<Rightarrow> json_obj \<Rightarrow> effect list \<Rightarrow> outcome" where
  "songplay_body b df row tr =
     need (attr df row ''song'') tr (\<lambda>song.
     need (attr df row ''artist'') tr (\<lambda>artist.
     need (attr df row ''length'') tr (\<lambda>len.
     and_then (perform b (Execute song_select [song, artist, len]) tr) (\<lambda>tr1.
     need (fetchone b tr1) tr1 (\<lambda>results.
     need (resolve results) tr1 (\<lambda>(songid, artistid).
     need (attr df row ''ts'') tr1 (\<lambda>ts.
     need (to_datetime_ms ts) tr1 (\<lambda>start_time.
     need (attr df row ''userId'') tr1 (\<lambda>userId.
     need (attr df row ''level'') tr1 (\<lambda>level.
     need (attr df row ''sessionId'') tr1 (\<lambda>sessionId.
     need (attr df row ''location'') tr1 (\<lambda>location.
     need (attr df row ''userAgent'') tr1 (\<lambda>userAgent.
     perform b (Execute songplay_table_insert
       [start_time, userId, level, songid, artistid, sessionId, location, userAgent])
       tr1)))))))))))))"

definition process_log_file :: "backend \<Rightarrow> node \<Rightarrow> path \<Rightarrow> effect list \<Rightarrow> outcome" where
  "process_log_file b fs filepath tr =
     need (read_json fs filepath) tr (\<lambda>df0.
     need (next_song df0) tr (\<lambda>df.
     need (column df ''ts'') tr (\<lambda>tss.
     need (convert_all tss) tr (\<lambda>t.
     and_then (for_each (\<lambda>row. perform b (Execute time_table_insert row))
                 (map time_row t) tr) (\<lambda>tr1.
     need (select_cols df user_cols) tr1 (\<lambda>user_df.
     and_then (for_each (\<lambda>row. perform b (Execute user_table_insert row))
                 user_df tr1) (\<lambda>tr2.
     for_each (songplay_body b df) (rows df) tr2)))))))"

section \<open>The file discoverer and the loader\<close>

text \<open>
  \<open>glob.glob(os.path.join(root, '*.json'))\<close> lists the entries of one directory whose
  name ends in \<open>.json\<close> and does not start with a dot, files and directories alike.
  A directory is a list of named entries in the order the system lists them.
\<close>

definition json_name :: "string \<Rightarrow> bool" where
  "json_name n \<longleftrightarrow>
     5 \<le> length n \<and> drop (length n - 5) n = ''.json'' \<and> take 1 n \<noteq> ''.''"

text \<open>\<open>os.walk\<close>, top down: a directory first, then its subdirectories in turn.\<close>

fun walk :: "path \<Rightarrow> (string \<times> node) list \<Rightarrow> path list"
  and walk_subdirs :: "path \<Rightarrow> (string \<times> node) list \<Rightarrow> path list" where
  "walk rt es =
     map (\<lambda>e. rt @ [fst e]) (filter (\<lambda>e. json_name (fst e)) es) @ walk_subdirs rt es"
| "walk_subdirs rt [] = []"
| "walk_subdirs rt ((n, File c) # es) = walk_subdirs rt es"
| "walk_subdirs rt ((n, Dir sub) # es) = walk (rt @ [n]) sub @ walk_subdirs rt es"

text \<open>
  The list \<open>all_files\<close> of lines 99 to 103. \<open>os.walk\<close> yields nothing for a root that
  is missing or is not a directory; \<open>os.path.abspath\<close> puts the working directory
  in front of a relative path.
\<close>

definition all_files :: "node \<Rightarrow> path \<Rightarrow> path \<Rightarrow> path list" where
  "all_files fs cwd filepath =
     (case lookup_node fs (cwd @ filepath) of
        Some (Dir es) \<Rightarrow> map (\<lambda>p. cwd @ p) (walk filepath es)
      | _ \<Rightarrow> [])"

fun show_nat :: "nat \<Rightarrow> string" where
  "show_nat n =
     (if n < 10 then [''0123456789'' ! n]
      else show_nat (n div 10) @ [''0123456789'' ! (n mod 10)])"

fun show_path :: "path \<Rightarrow> string" where
  "show_path [] = []"
| "show_path [x] = x"
| "show_path (x # y # p) = x @ ''/'' @ show_path (y # p)"

definition found_line :: "nat \<Rightarrow> path \<Rightarrow> string" where
  "found_line n p = show_nat n @ '' files found in '' @ show_path p"

definition progress_line :: "nat \<Rightarrow> nat \<Rightarrow> string" where
  "progress_line i n = show_nat i @ ''/'' @ show_nat n @ '' files processed.''"

text \<open>The body of the loop of lines 110 to 113.\<close>

definition load_one ::
    "backend \<Rightarrow> (path \<Rightarrow> effect list \<Rightarrow> outcome) \<Rightarrow> nat \<Rightarrow> nat \<times> path \<Rightarrow> effect list \<Rightarrow> outcome" where
  "load_one b func num_files x tr =
     and_then (func (snd x) tr) (\<lambda>tr1.
     and_then (perform b Commit tr1) (\<lambda>tr2.
     Done (tr2 @ [Print (progress_line (fst x) num_files)])))"

definition process_data ::
    "backend \<Rightarrow> node \<Rightarrow> path \<Rightarrow> path \<Rightarrow> (path \<Rightarrow> effect list \<Rightarrow> outcome) \<Rightarrow> effect list \<Rightarrow> outcome" where
  "process_data b fs cwd filepath func tr =
     (let files = all_files fs cwd filepath;
          num_files = length files
      in for_each (load_one b func num_files) (enumerate 1 files)
           (tr @ [Print (found_line num_files filepath)]))"

section \<open>The driver\<close>

definition dsn :: string where
  "dsn = ''host=127.0.0.1 dbname=sparkifydb user=student password=student''"

definition main :: "backend \<Rightarrow> node \<Rightarrow> path \<Rightarrow> outcome" where
  "main b fs cwd =
     and_then (perform b (Connect dsn) []) (\<lambda>tr.
     and_then (perform b Cursor tr) (\<lambda>tr.
     and_then (process_data b fs cwd [''data'', ''song_data''] (process_song_file b fs) tr) (\<lambda>tr.
     and_then (process_data b fs cwd [''data'', ''log_data''] (process_log_file b fs) tr) (\<lambda>tr.
     perform b Close tr))))"

section \<open>Reading a record of calls\<close>

text \<open>The parameter lists of the statements sent with one query, in the order sent.\<close>

fun statements :: "query \<Rightarrow> effect list \<Rightarrow> jval list list" where
  "statements q [] = []"
| "statements q (Execute q' ps # tr) =
     (if q' = q then ps # statements q tr else statements q tr)"
| "statements q (c # tr) = statements q tr"

fun is_execute :: "effect \<Rightarrow> bool" where
  "is_execute (Execute q ps) = True"
| "is_execute c = False"

text \<open>The rows the log record extractor builds from one event.\<close>

definition lookup_key :: "json_obj \<Rightarrow> jval list" where
  "lookup_key r = [cell r ''song'', cell r ''artist'', cell r ''length'']"

definition user_row :: "json_obj \<Rightarrow> jval list" where
  "user_row r = map (cell r) user_cols"

definition songplay_row :: "jval \<Rightarrow> json_obj \<Rightarrow> jval \<Rightarrow> jval \<Rightarrow> jval list" where
  "songplay_row start_time r songid artistid =
     [start_time, cell r ''userId'', cell r ''level'', songid, artistid,
      cell r ''sessionId'', cell r ''location'', cell r ''userAgent'']"

text \<open>The two statements sent for one event: the lookup, then the song-play insert.\<close>

definition play_pair :: "json_obj \<times> jval \<times> jval \<times> jval \<Rightarrow> effect list" where
  "play_pair x =
     (case x of (r, t, songid, artistid) \<Rightarrow>
        [Execute song_select (lookup_key r),
         Execute songplay_table_insert (songplay_row t r songid artistid)])"

text \<open>
  The calls of one pass over the surviving events \<open>S\<close> of a log file, given their
  timestamps \<open>ts\<close> and the identifiers \<open>ids\<close> that the lookups gave: the time inserts,
  then the user inserts, then a lookup and a song-play insert for each event.
\<close>

definition log_calls :: "json_obj list \<Rightarrow> jval list \<Rightarrow> (jval \<times> jval) list \<Rightarrow> effect list" where
  "log_calls S ts ids =
     map (\<lambda>t. Execute time_table_insert (time_row t)) ts
     @ map (\<lambda>r. Execute user_table_insert (user_row r)) S
     @ concat (map play_pair (zip S (zip ts ids)))"

definition songplay_cols :: "string list" where
  "songplay_cols = [''song'', ''artist'', ''length'', ''ts'', ''userId'', ''level'',
                    ''sessionId'', ''location'', ''userAgent'']"

text \<open>
  What the loader is meant to do with a list of files numbered from \<open>i\<close>: each file is
  extracted, then committed, then reported, before the next one starts.
\<close>

inductive loads ::
    "backend \<Rightarrow> (path \<Rightarrow> effect list \<Rightarrow> outcome) \<Rightarrow> nat \<Rightarrow> nat \<Rightarrow> path list
       \<Rightarrow> effect list \<Rightarrow> effect list \<Rightarrow> bool" where
  loads_Nil: "loads b func n i [] t t"
| loads_Cons:
    "func f t = Done u \<Longrightarrow> raises b u Commit = None \<Longrightarrow>
     loads b func n (Suc i) fs (u @ [Commit, Print (progress_line i n)]) t' \<Longrightarrow>
     loads b func n i (f # fs) t t'"

text \<open>No entry below a directory, at any depth, has a name the glob pattern matches.\<close>

fun json_free :: "(string \<times> node) list \<Rightarrow> bool" where
  "json_free [] = True"
| "json_free ((n, File c) # es) = (\<not> json_name n \<and> json_free es)"
| "json_free ((n, Dir sub) # es) = (\<not> json_name n \<and> json_free sub \<and> json_free es)"

text \<open>An outcome whose record is the record \<open>tr\<close> with calls from \<open>A\<close> added at the end.\<close>

definition extends :: "effect set \<Rightarrow> effect list \<Rightarrow> outcome \<Rightarrow> bool" where
  "extends A tr out \<longleftrightarrow> (\<exists>new. trace_of out = tr @ new \<and> set new \<subseteq> A)"

section \<open>Sample inputs\<close>

text \<open>A database that accepts every call and finds no song.\<close>

definition quiet_db :: backend where
  "quiet_db = \<lparr>raises = (\<lambda>tr c. None), fetchone = (\<lambda>tr. Inr None)\<rparr>"

text \<open>A database that accepts every call and answers the last lookup from a table.\<close>

definition catalog_db :: "(jval list \<times> jval list) list \<Rightarrow> backend" where
  "catalog_db tab =
     \<lparr>raises = (\<lambda>tr c. None),
      fetchone = (\<lambda>tr. case rev tr of
                    Execute song_select key # past \<Rightarrow> Inr (map_of tab key)
                  | _ \<Rightarrow> Inl (DbError ''no results to fetch''))\<rparr>"

definition song1 :: json_obj where
  "song1 = [(''song_id'', JStr ''S1''), (''title'', JStr ''T''), (''artist_id'', JStr ''A1''),
            (''year'', JInt 2000), (''duration'', JFloat (401 / 2)),
            (''artist_name'', JStr ''N''), (''artist_location'', JStr ''L''),
            (''artist_latitude'', JFloat 1), (''artist_longitude'', JFloat 2)]"

definition song2 :: json_obj where
  "song2 = [(''song_id'', JStr ''S2''), (''title'', JStr ''U''), (''artist_id'', JStr ''A2''),
            (''year'', JInt 0), (''duration'', JFloat 3),
            (''artist_name'', JStr ''M''), (''artist_location'', JNull),
            (''artist_latitude'', JNull), (''artist_longitude'', JNull)]"

definition ev_home :: json_obj where
  "ev_home = [(''page'', JStr ''Home''), (''ts'', JInt 1541121934000), (''userId'', JInt 10)]"

definition ev_play :: json_obj where
  "ev_play = [(''page'', JStr ''NextSong''), (''ts'', JInt 1541121934796),
              (''userId'', JInt 10), (''firstName'', JStr ''F''), (''lastName'', JStr ''G''),
              (''gender'', JStr ''M''), (''level'', JStr ''free''), (''song'', JStr ''T''),
              (''artist'', JStr ''N''), (''length'', JFloat (401 / 2)),
              (''sessionId'', JInt 7), (''location'', JStr ''X''), (''userAgent'', JStr ''UA'')]"

definition log_frame :: frame where
  "log_frame = \<lparr>columns = map fst ev_play, rows = [ev_play]\<rparr>"

definition disk :: node where
  "disk =
     Dir [(''data'',
       Dir [(''song_data'',
              Dir [(''A'', Dir [(''s1.json'', File (Lines [song1])),
                                (''notes.txt'', File Malformed)]),
                   (''two.json'', File (Lines [song1, song2]))]),
            (''log_data'',
              Dir [(''l1.json'', File (Lines [ev_home, ev_play])),
                   (''l2.json'', File (Lines [ev_play, ev_home, ev_play])),
                   (''bad.json'', File Malformed)]),
            (''empty'', Dir [(''sub'', Dir []), (''notes.txt'', File Malformed)])])]"

definition catalog :: "(jval list \<times> jval list) list" where
  "catalog = [([JStr ''T'', JStr ''N'', JFloat (401 / 2)], [JStr ''S1'', JStr ''A1''])]"

definition play_time :: jval where
  "play_time = JTime 1541121934796000000"

text \<open>The calls of one pass over \<open>l2.json\<close>, whose two playback events are the same.\<close>

definition l2_calls :: "effect list" where
  "l2_calls =
     [Execute time_table_insert (time_row play_time),
      Execute time_table_insert (time_row play_time),
      Execute user_table_insert (user_row ev_play),
      Execute user_table_insert (user_row ev_play),
      Execute song_select (lookup_key ev_play),
      Execute songplay_table_insert (songplay_row play_time ev_play JNull JNull),
      Execute song_select (lookup_key ev_play),
      Execute songplay_table_insert (songplay_row play_time ev_play JNull JNull)]"

text \<open>A tree in which every file can be loaded.\<close>

definition small_disk :: node where
  "small_disk =
     Dir [(''data'',
       Dir [(''song_data'', Dir [(''s1.json'', File (Lines [song1]))]),
            (''log_data'', Dir [(''l1.json'', File (Lines [ev_home, ev_play]))])])]"

text \<open>The calls of the loader over \<open>data/song_data\<close> of \<open>disk\<close>.\<close>

definition song_pass :: "effect list" where
  "song_pass =
     [Print ''2 files found in data/song_data'',
      Execute song_table_insert (map (cell song1) song_cols),
      Execute artist_table_insert (map (cell song1) artist_cols @ map (cell song2) artist_cols),
      Commit,
      Print ''1/2 files processed.'',
      Execute song_table_insert (map (cell song1) song_cols),
      Execute artist_table_insert (map (cell song1) artist_cols),
      Commit,
      Print ''2/2 files processed.'']"

text \<open>
  The calls of the loader over \<open>data/log_data\<close> of \<open>disk\<close>, up to the file that does not
  parse.
\<close>

definition log_pass :: "effect list" where
  "log_pass =
     [Print ''3 files found in data/log_data'']
     @ log_calls [ev_play] [play_time] [(JNull, JNull)]
     @ [Commit, Print ''1/3 files processed.'']
     @ l2_calls
     @ [Commit, Print ''2/3 files processed.'']"

section \<open>Basic facts\<close>

lemma need_simps [simp]:
  "need (Inl e) tr k = Raised e tr"
  "need (Inr v) tr k = k v"
  by (simp_all add: need_def)

lemma and_then_simps [simp]:
  "and_then (Raised e tr) k = Raised e tr"
  "and_then (Done tr) k = k tr"
  by (simp_all add: and_then_def)

lemma need_Done: "need x tr k = Done tr' \<longleftrightarrow> (\<exists>v. x = Inr v \<and> k v = Done tr')"
  by (cases x) simp_all

lemma and_then_Done: "and_then r k = Done tr' \<longleftrightarrow> (\<exists>t. r = Done t \<and> k t = Done tr')"
  by (cases r) simp_all

lemma perform_Done: "perform b c tr = Done tr' \<longleftrightarrow> raises b tr c = None \<and> tr' = tr @ [c]"
  by (auto simp: perform_def split: option.splits)

lemma perform_Raised:
  "perform b c tr = Raised e tr' \<longleftrightarrow> raises b tr c = Some e \<and> tr' = tr @ [c]"
  by (auto simp: perform_def split: option.splits)

lemma select_cols_Inr:
  "select_cols df cs = Inr vs \<longleftrightarrow>
     set cs \<subseteq> set (columns df) \<and> vs = map (\<lambda>r. map (cell r) cs) (rows df)"
proof -
  have "filter (\<lambda>c. c \<notin> set (columns df)) cs = [] \<longleftrightarrow> set cs \<subseteq> set (columns df)"
    by (auto simp: filter_empty_conv)
  then show ?thesis
    by (cases "filter (\<lambda>c. c \<notin> set (columns df)) cs") (auto simp: select_cols_def)
qed

lemma read_json_Inr:
  "read_json fs p = Inr df \<longleftrightarrow>
     (\<exists>os. lookup_node fs p = Some (File (Lines os)) \<and>
           df = \<lparr>columns = remdups (concat (map (map fst) os)), rows = os\<rparr>)"
  by (auto simp: read_json_def split: option.splits node.splits content.splits)


lemma process_song_file_Done:
  assumes "process_song_file b fs filepath tr = Done tr'"
  shows "\<exists>r rs. lookup_node fs filepath = Some (File (Lines (r # rs))) \<and>
           set (song_cols @ artist_cols) \<subseteq> (\<Union>x \<in> set (r # rs). fst ` set x) \<and>
           tr' = tr @ [Execute song_table_insert (map (cell r) song_cols),
                       Execute artist_table_insert
                         (concat (map (\<lambda>x. map (cell x) artist_cols) (r # rs)))]"
  using assms unfolding process_song_file_def
  by (auto simp: read_json_Inr select_cols_Inr perform_Done
           split: sum.splits list.splits outcome.splits)

section \<open>The song record extractor: what is sent\<close>

text \<open>
  C10. A run of \<open>process_song_file\<close> that completes has sent exactly two statements,
  however many records the file holds: the song insert with the five song fields of the
  first record, then the artist insert with the artist fields of every record, flattened
  into one parameter list. That list has five values for each record of the file, so it has
  five values only for a file of one record.
\<close>

theorem song_file_two_inserts:
  assumes "process_song_file b fs filepath tr = Done tr'"
  shows "\<exists>r rs. lookup_node fs filepath = Some (File (Lines (r # rs))) \<and>
           tr' = tr @ [Execute song_table_insert (map (cell r) song_cols),
                       Execute artist_table_insert
                         (concat (map (\<lambda>x. map (cell x) artist_cols) (r # rs)))] \<and>
           length (map (cell r) song_cols) = 5 \<and>
           length (concat (map (\<lambda>x. map (cell x) artist_cols) (r # rs)))
             = 5 * length (r # rs)"
proof -
  from process_song_file_Done [OF assms] obtain r rs where
    f: "lookup_node fs filepath = Some (File (Lines (r # rs)))" and
    t: "tr' = tr @ [Execute song_table_insert (map (cell r) song_cols),
                    Execute artist_table_insert
                      (concat (map (\<lambda>x. map (cell x) artist_cols) (r # rs)))]"
    by blast
  have n: "length (concat (map (\<lambda>x. map (cell x) artist_cols) xs)) = 5 * length xs" for xs
    by (induction xs) (simp_all add: artist_cols_def)
  show ?thesis using f t n [of "r # rs"] by (simp add: song_cols_def)
qed

theorem song_file_two_inserts_witness:
  "process_song_file quiet_db disk [''data'', ''song_data'', ''two.json''] [] =
     Done [Execute song_table_insert
             [JStr ''S1'', JStr ''T'', JStr ''A1'', JInt 2000, JFloat (401 / 2)],
           Execute artist_table_insert
             [JStr ''A1'', JStr ''N'', JStr ''L'', JFloat 1, JFloat 2,
              JStr ''A2'', JStr ''M'', JNull, JNull, JNull]] \<and>
   (\<exists>r rs. lookup_node disk [''data'', ''song_data'', ''two.json'']
              = Some (File (Lines (r # rs))) \<and>
      length (concat (map (\<lambda>x. map (cell x) artist_cols) (r # rs))) = 5 * length (r # rs))"
proof -
  have run: "process_song_file quiet_db disk [''data'', ''song_data'', ''two.json''] [] =
     Done [Execute song_table_insert
             [JStr ''S1'', JStr ''T'', JStr ''A1'', JInt 2000, JFloat (401 / 2)],
           Execute artist_table_insert
             [JStr ''A1'', JStr ''N'', JStr ''L'', JFloat 1, JFloat 2,
              JStr ''A2'', JStr ''M'', JNull, JNull, JNull]]"
    by code_simp
  from song_file_two_inserts [OF run] show ?thesis using run by blast
qed



section \<open>The log record extractor: the calls of a completed run\<close>

lemma statements_append [simp]:
  "statements q (xs @ ys) = statements q xs @ statements q ys"
  by (induction q xs rule: statements.induct) simp_all

lemma statements_map_Execute [simp]:
  "statements q (map (\<lambda>x. Execute q' (f x)) xs) = (if q' = q then map f xs else [])"
  by (induction xs) auto

lemma statements_play_pairs:
  "statements q (concat (map play_pair xs)) =
     (if q = song_select then map (\<lambda>x. lookup_key (fst x)) xs
      else if q = songplay_table_insert
        then map (\<lambda>(r, t, s, a). songplay_row t r s a) xs
      else [])"
  by (induction xs) (auto simp: play_pair_def)

lemma length_play_pairs: "length (concat (map play_pair xs)) = 2 * length xs"
  by (induction xs) (auto simp: play_pair_def)

lemma for_each_execute_Done:
  "for_each (\<lambda>row. perform b (Execute q row)) rs tr = Done tr' \<Longrightarrow>
     tr' = tr @ map (Execute q) rs"
proof (induction rs arbitrary: tr)
  case Nil
  then show ?case by simp
next
  case (Cons r rs)
  from Cons.prems have "for_each (\<lambda>row. perform b (Execute q row)) rs (tr @ [Execute q r]) = Done tr'"
    by (auto simp: and_then_Done perform_Done)
  from Cons.IH [OF this] show ?case by simp
qed

lemma convert_all_Inr:
  "convert_all vs = Inr ts \<Longrightarrow> list_all2 (\<lambda>v t. to_datetime_ms v = Inr t) vs ts"
  by (induction vs arbitrary: ts) (auto split: sum.splits)

lemma attr_Inr: "attr df row c = Inr v \<longleftrightarrow> c \<in> set (columns df) \<and> v = cell row c"
  by (auto simp: attr_def)

lemma column_Inr:
  "column df c = Inr vs \<longleftrightarrow> c \<in> set (columns df) \<and> vs = map (\<lambda>r. cell r c) (rows df)"
  by (auto simp: column_def)

lemma songplay_body_Done:
  "songplay_body b df row tr = Done tr' \<longleftrightarrow>
     set songplay_cols \<subseteq> set (columns df) \<and>
     raises b tr (Execute song_select (lookup_key row)) = None \<and>
     (\<exists>results s a t.
        fetchone b (tr @ [Execute song_select (lookup_key row)]) = Inr results \<and>
        resolve results = Inr (s, a) \<and>
        to_datetime_ms (cell row ''ts'') = Inr t \<and>
        raises b (tr @ [Execute song_select (lookup_key row)])
          (Execute songplay_table_insert (songplay_row t row s a)) = None \<and>
        tr' = tr @ play_pair (row, t, s, a))"
  unfolding songplay_body_def
  by (auto simp: need_Done and_then_Done perform_Done attr_Inr songplay_cols_def
        lookup_key_def songplay_row_def play_pair_def)

lemma songplay_loop_Done:
  assumes "list_all2 (\<lambda>r t. to_datetime_ms (cell r ''ts'') = Inr t) S ts"
    and "for_each (songplay_body b df) S tr = Done tr'"
  shows "\<exists>ids. length ids = length S \<and>
           list_all2 (\<lambda>r sa. \<exists>pre res.
               fetchone b (pre @ [Execute song_select (lookup_key r)]) = Inr res \<and>
               resolve res = Inr sa) S ids \<and>
           tr' = tr @ concat (map play_pair (zip S (zip ts (zip (map fst ids) (map snd ids)))))"
  using assms
proof (induction S ts arbitrary: tr rule: list_all2_induct)
  case Nil
  then show ?case by simp
next
  case (Cons r S t ts)
  from Cons.prems obtain t1 where
    b: "songplay_body b df r tr = Done t1" and l: "for_each (songplay_body b df) S t1 = Done tr'"
    by (auto simp: and_then_Done)
  from b Cons.hyps(1) obtain res s a where
    f: "fetchone b (tr @ [Execute song_select (lookup_key r)]) = Inr res" and
    r: "resolve res = Inr (s, a)" and t1: "t1 = tr @ play_pair (r, t, s, a)"
    by (auto simp: songplay_body_Done)
  from Cons.IH [OF l] obtain ids where
    n: "length ids = length S" and
    a: "list_all2 (\<lambda>r sa. \<exists>pre res.
               fetchone b (pre @ [Execute song_select (lookup_key r)]) = Inr res \<and>
               resolve res = Inr sa) S ids" and
    e: "tr' = t1 @ concat (map play_pair (zip S (zip ts (zip (map fst ids) (map snd ids)))))"
    by blast
  have "list_all2 (\<lambda>r sa. \<exists>pre res.
               fetchone b (pre @ [Execute song_select (lookup_key r)]) = Inr res \<and>
               resolve res = Inr sa) (r # S) ((s, a) # ids)"
    using a f r by auto
  then show ?case using n e t1
    by (intro exI [of _ "(s, a) # ids"]) simp
qed

lemma next_song_Inr:
  "next_song df = Inr df' \<longleftrightarrow>
     ''page'' \<in> set (columns df) \<and> df' = df\<lparr>rows := filter is_next_song (rows df)\<rparr>"
  by (auto simp: next_song_def column_def)

lemma process_log_file_Done:
  assumes "process_log_file b fs p tr = Done tr'"
  shows "\<exists>evs ts ids.
           lookup_node fs p = Some (File (Lines evs)) \<and>
           list_all2 (\<lambda>r t. to_datetime_ms (cell r ''ts'') = Inr t) (filter is_next_song evs) ts \<and>
           length ids = length (filter is_next_song evs) \<and>
           list_all2 (\<lambda>r sa. \<exists>pre res.
               fetchone b (pre @ [Execute song_select (lookup_key r)]) = Inr res \<and>
               resolve res = Inr sa) (filter is_next_song evs) ids \<and>
           tr' = tr @ log_calls (filter is_next_song evs) ts ids"
proof -
  from assms obtain evs df tss ts t1 t2 where
    f: "lookup_node fs p = Some (File (Lines evs))" and
    df: "df = \<lparr>columns = remdups (concat (map (map fst) evs)), rows = filter is_next_song evs\<rparr>" and
    tss: "tss = map (\<lambda>r. cell r ''ts'') (filter is_next_song evs)" and
    c: "convert_all tss = Inr ts" and
    l1: "for_each (\<lambda>row. perform b (Execute time_table_insert row)) (map time_row ts) tr = Done t1" and
    l2: "for_each (\<lambda>row. perform b (Execute user_table_insert row))
           (map (\<lambda>r. map (cell r) user_cols) (filter is_next_song evs)) t1 = Done t2" and
    l3: "for_each (songplay_body b df) (filter is_next_song evs) t2 = Done tr'"
    unfolding process_log_file_def
    by (auto simp: need_Done and_then_Done read_json_Inr next_song_Inr column_Inr select_cols_Inr)
  have conv: "list_all2 (\<lambda>r t. to_datetime_ms (cell r ''ts'') = Inr t) (filter is_next_song evs) ts"
    using convert_all_Inr [OF c] by (simp add: tss list_all2_map1)
  have e1: "t1 = tr @ map (\<lambda>t. Execute time_table_insert (time_row t)) ts"
    using for_each_execute_Done [OF l1] by (simp add: comp_def)
  have e2: "t2 = t1 @ map (\<lambda>r. Execute user_table_insert (user_row r)) (filter is_next_song evs)"
    using for_each_execute_Done [OF l2] by (simp add: comp_def user_row_def)
  from songplay_loop_Done [OF conv l3] e1 e2 f conv show ?thesis
    by (auto simp: log_calls_def zip_map_fst_snd)
qed

lemma map_fst_zip_same:
  "length xs = length ys \<Longrightarrow> map (\<lambda>x. f (fst x)) (zip xs ys) = map f xs"
  by (induction xs ys rule: list_induct2) auto

lemma statements_log_calls:
  assumes "length ts = length S" and "length ids = length S"
  shows "statements time_table_insert (log_calls S ts ids) = map time_row ts"
    and "statements user_table_insert (log_calls S ts ids) = map user_row S"
    and "statements song_select (log_calls S ts ids) = map lookup_key S"
    and "statements songplay_table_insert (log_calls S ts ids) =
           map (\<lambda>(r, t, s, a). songplay_row t r s a) (zip S (zip ts ids))"
    and "length (log_calls S ts ids) = 4 * length S"
  using assms
  by (simp_all add: log_calls_def statements_play_pairs length_play_pairs map_fst_zip_same)

lemma converted_unique:
  "list_all2 (\<lambda>x y. g x = Inr y) xs ys \<Longrightarrow> list_all2 (\<lambda>x y. g x = Inr y) xs zs \<Longrightarrow> ys = zs"
  by (auto simp: list_all2_conv_all_nth intro: nth_equalityI)

section \<open>The log record extractor: what is sent\<close>

lemma l1_run:
  "process_log_file quiet_db disk [''data'', ''log_data'', ''l1.json''] [] =
     Done [Execute time_table_insert
             [JTime 1541121934796000000, JInt 1, JInt 2, JInt 44, JInt 11, JInt 2018, JInt 4],
           Execute user_table_insert
             [JInt 10, JStr ''F'', JStr ''G'', JStr ''M'', JStr ''free''],
           Execute song_select [JStr ''T'', JStr ''N'', JFloat (401 / 2)],
           Execute songplay_table_insert
             [JTime 1541121934796000000, JInt 10, JStr ''free'', JNull, JNull,
              JInt 7, JStr ''X'', JStr ''UA'']]"
  by code_simp

lemma l1_file:
  "lookup_node disk [''data'', ''log_data'', ''l1.json''] = Some (File (Lines [ev_home, ev_play]))"
  by code_simp

lemma l1_survivors: "filter is_next_song [ev_home, ev_play] = [ev_play]"
  by code_simp

lemma ev_play_ts: "cell ev_play ''ts'' = JInt 1541121934796"
  by code_simp

text \<open>
  C1. In a run of \<open>process_log_file\<close> that completes, the time rows, the user rows
  and the song-play rows sent are, one for one and in order, those of the events of the file
  whose \<open>page\<close> is \<open>NextSong\<close>; so are the lookups. Nothing else is sent: the run makes
  four calls for each such event, and an event with another \<open>page\<close> adds none.
\<close>

theorem log_rows_only_from_next_song:
  assumes "process_log_file b fs p tr = Done tr'"
  shows "\<exists>evs new.
           lookup_node fs p = Some (File (Lines evs)) \<and> tr' = tr @ new \<and>
           list_all2 (\<lambda>r ps. \<exists>t. to_datetime_ms (cell r ''ts'') = Inr t \<and> ps = time_row t)
             (filter (\<lambda>r. cell r ''page'' = JStr ''NextSong'') evs)
             (statements time_table_insert new) \<and>
           statements user_table_insert new =
             map user_row (filter (\<lambda>r. cell r ''page'' = JStr ''NextSong'') evs) \<and>
           list_all2 (\<lambda>r ps. \<exists>t s a. to_datetime_ms (cell r ''ts'') = Inr t \<and>
                                ps = songplay_row t r s a)
             (filter (\<lambda>r. cell r ''page'' = JStr ''NextSong'') evs)
             (statements songplay_table_insert new) \<and>
           statements song_select new =
             map lookup_key (filter (\<lambda>r. cell r ''page'' = JStr ''NextSong'') evs) \<and>
           length new = 4 * length (filter (\<lambda>r. cell r ''page'' = JStr ''NextSong'') evs)"
proof -
  from process_log_file_Done [OF assms] obtain evs ts ids where
    f: "lookup_node fs p = Some (File (Lines evs))" and
    c: "list_all2 (\<lambda>r t. to_datetime_ms (cell r ''ts'') = Inr t) (filter is_next_song evs) ts" and
    n: "length ids = length (filter is_next_song evs)" and
    e: "tr' = tr @ log_calls (filter is_next_song evs) ts ids"
    by blast
  have lt: "length ts = length (filter is_next_song evs)"
    using c by (simp add: list_all2_lengthD)
  note st = statements_log_calls [OF lt n]
  have a: "list_all2 (\<lambda>r ps. \<exists>t. to_datetime_ms (cell r ''ts'') = Inr t \<and> ps = time_row t)
             (filter is_next_song evs) (map time_row ts)"
    using c by (simp add: list_all2_map2 list_all2_mono)
  have b: "list_all2 (\<lambda>r ps. \<exists>t s a. to_datetime_ms (cell r ''ts'') = Inr t \<and>
                                ps = songplay_row t r s a)
             (filter is_next_song evs)
             (map (\<lambda>(r, t, s, a). songplay_row t r s a) (zip (filter is_next_song evs) (zip ts ids)))"
    using c lt n by (auto simp: list_all2_conv_all_nth split: prod.splits)
  have S: "filter (\<lambda>r. cell r ''page'' = JStr ''NextSong'') xs = filter is_next_song xs" for xs
    by (rule filter_cong) (simp_all add: is_next_song_def)
  show ?thesis
    unfolding S
  proof (intro exI conjI)
    show "lookup_node fs p = Some (File (Lines evs))" by (rule f)
    show "tr' = tr @ log_calls (filter is_next_song evs) ts ids" by (rule e)
    show "list_all2 (\<lambda>r ps. \<exists>t. to_datetime_ms (cell r ''ts'') = Inr t \<and> ps = time_row t)
            (filter is_next_song evs)
            (statements time_table_insert (log_calls (filter is_next_song evs) ts ids))"
      unfolding st(1) by (rule a)
    show "statements user_table_insert (log_calls (filter is_next_song evs) ts ids) =
            map user_row (filter is_next_song evs)"
      by (rule st(2))
    show "list_all2 (\<lambda>r ps. \<exists>t s a. to_datetime_ms (cell r ''ts'') = Inr t \<and>
                                ps = songplay_row t r s a)
            (filter is_next_song evs)
            (statements songplay_table_insert (log_calls (filter is_next_song evs) ts ids))"
      unfolding st(4) by (rule b)
    show "statements song_select (log_calls (filter is_next_song evs) ts ids) =
            map lookup_key (filter is_next_song evs)"
      by (rule st(3))
    show "length (log_calls (filter is_next_song evs) ts ids) = 4 * length (filter is_next_song evs)"
      by (rule st(5))
  qed
qed

theorem log_rows_only_from_next_song_witness:
  "process_log_file quiet_db disk [''data'', ''log_data'', ''l1.json''] [] =
     Done [Execute time_table_insert
             [JTime 1541121934796000000, JInt 1, JInt 2, JInt 44, JInt 11, JInt 2018, JInt 4],
           Execute user_table_insert
             [JInt 10, JStr ''F'', JStr ''G'', JStr ''M'', JStr ''free''],
           Execute song_select [JStr ''T'', JStr ''N'', JFloat (401 / 2)],
           Execute songplay_table_insert
             [JTime 1541121934796000000, JInt 10, JStr ''free'', JNull, JNull,
              JInt 7, JStr ''X'', JStr ''UA'']] \<and>
   (\<exists>new. length new = 4 \<and> statements user_table_insert new = [user_row ev_play] \<and>
      statements song_select new = [lookup_key ev_play])"
proof -
  from log_rows_only_from_next_song [OF l1_run] obtain evs new where
    f: "lookup_node disk [''data'', ''log_data'', ''l1.json''] = Some (File (Lines evs))" and
    u: "statements user_table_insert new =
          map user_row (filter (\<lambda>r. cell r ''page'' = JStr ''NextSong'') evs)" and
    k: "statements song_select new =
          map lookup_key (filter (\<lambda>r. cell r ''page'' = JStr ''NextSong'') evs)" and
    n: "length new = 4 * length (filter (\<lambda>r. cell r ''page'' = JStr ''NextSong'') evs)"
    by blast
  from f have evs: "evs = [ev_home, ev_play]"
    by (simp add: l1_file)
  have S: "filter (\<lambda>r. cell r ''page'' = JStr ''NextSong'') [ev_home, ev_play] = [ev_play]"
    by code_simp
  from u k n have "\<exists>new. length new = 4 \<and> statements user_table_insert new = [user_row ev_play] \<and>
      statements song_select new = [lookup_key ev_play]"
    unfolding evs S by (intro exI [of _ new]) simp
  then show ?thesis using l1_run by (rule conjI [rotated])
qed

text \<open>
  C4. For each surviving event whose \<open>ts\<close> is an integer count of milliseconds, the time
  row sent holds, in this order, the timestamp, then its hour, day of the month, ISO week,
  month, year and weekday.
\<close>

theorem time_row_fields:
  assumes "process_log_file b fs p tr = Done tr'"
  shows "\<exists>evs new.
           lookup_node fs p = Some (File (Lines evs)) \<and> tr' = tr @ new \<and>
           length (statements time_table_insert new) = length (filter is_next_song evs) \<and>
           (\<forall>i < length (filter is_next_song evs). \<forall>n.
              cell (filter is_next_song evs ! i) ''ts'' = JInt n \<longrightarrow>
              statements time_table_insert new ! i =
                [JTime (n * 1000000), JInt (hour_of (n * 1000000)), JInt (day_of (n * 1000000)),
                 JInt (week_of (n * 1000000)), JInt (month_of (n * 1000000)),
                 JInt (year_of (n * 1000000)), JInt (weekday_of (n * 1000000))])"
proof -
  from process_log_file_Done [OF assms] obtain evs ts ids where
    f: "lookup_node fs p = Some (File (Lines evs))" and
    c: "list_all2 (\<lambda>r t. to_datetime_ms (cell r ''ts'') = Inr t) (filter is_next_song evs) ts" and
    n: "length ids = length (filter is_next_song evs)" and
    e: "tr' = tr @ log_calls (filter is_next_song evs) ts ids"
    by blast
  have lt: "length ts = length (filter is_next_song evs)"
    using c by (simp add: list_all2_lengthD)
  note st = statements_log_calls [OF lt n]
  have row: "map time_row ts ! i =
          [JTime (n * 1000000), JInt (hour_of (n * 1000000)), JInt (day_of (n * 1000000)),
           JInt (week_of (n * 1000000)), JInt (month_of (n * 1000000)),
           JInt (year_of (n * 1000000)), JInt (weekday_of (n * 1000000))]"
    if i: "i < length (filter is_next_song evs)"
      and ts: "cell (filter is_next_song evs ! i) ''ts'' = JInt n" for i n
  proof -
    from c i ts have "to_datetime_ms (JInt n) = Inr (ts ! i)"
      by (auto simp: list_all2_conv_all_nth)
    then have "ts ! i = JTime (n * 1000000)"
      by (auto simp: to_datetime_ms_def split: if_splits)
    then show ?thesis using i lt by (simp add: time_row_def dt_part_def)
  qed
  show ?thesis
  proof (intro exI conjI allI impI)
    show "lookup_node fs p = Some (File (Lines evs))" by (rule f)
    show "tr' = tr @ log_calls (filter is_next_song evs) ts ids" by (rule e)
    show "length (statements time_table_insert (log_calls (filter is_next_song evs) ts ids))
            = length (filter is_next_song evs)"
      by (simp add: st(1) lt)
  next
    fix i n
    assume "i < length (filter is_next_song evs)"
      and "cell (filter is_next_song evs ! i) ''ts'' = JInt n"
    then show "statements time_table_insert (log_calls (filter is_next_song evs) ts ids) ! i =
                [JTime (n * 1000000), JInt (hour_of (n * 1000000)), JInt (day_of (n * 1000000)),
                 JInt (week_of (n * 1000000)), JInt (month_of (n * 1000000)),
                 JInt (year_of (n * 1000000)), JInt (weekday_of (n * 1000000))]"
      unfolding st(1) by (rule row)
  qed
qed

theorem time_row_fields_witness:
  "process_log_file quiet_db disk [''data'', ''log_data'', ''l1.json''] [] =
     Done [Execute time_table_insert
             [JTime 1541121934796000000, JInt 1, JInt 2, JInt 44, JInt 11, JInt 2018, JInt 4],
           Execute user_table_insert
             [JInt 10, JStr ''F'', JStr ''G'', JStr ''M'', JStr ''free''],
           Execute song_select [JStr ''T'', JStr ''N'', JFloat (401 / 2)],
           Execute songplay_table_insert
             [JTime 1541121934796000000, JInt 10, JStr ''free'', JNull, JNull,
              JInt 7, JStr ''X'', JStr ''UA'']] \<and>
   [JTime 1541121934796000000, JInt 1, JInt 2, JInt 44, JInt 11, JInt 2018, JInt 4] =
     [JTime (1541121934796 * 1000000), JInt (hour_of (1541121934796 * 1000000)),
      JInt (day_of (1541121934796 * 1000000)), JInt (week_of (1541121934796 * 1000000)),
      JInt (month_of (1541121934796 * 1000000)), JInt (year_of (1541121934796 * 1000000)),
      JInt (weekday_of (1541121934796 * 1000000))]"
proof -
  from time_row_fields [OF l1_run] obtain evs new where
    f: "lookup_node disk [''data'', ''log_data'', ''l1.json''] = Some (File (Lines evs))" and
    new: "[Execute time_table_insert
             [JTime 1541121934796000000, JInt 1, JInt 2, JInt 44, JInt 11, JInt 2018, JInt 4],
           Execute user_table_insert
             [JInt 10, JStr ''F'', JStr ''G'', JStr ''M'', JStr ''free''],
           Execute song_select [JStr ''T'', JStr ''N'', JFloat (401 / 2)],
           Execute songplay_table_insert
             [JTime 1541121934796000000, JInt 10, JStr ''free'', JNull, JNull,
              JInt 7, JStr ''X'', JStr ''UA'']] = [] @ new" and
    row: "\<forall>i < length (filter is_next_song evs). \<forall>n.
              cell (filter is_next_song evs ! i) ''ts'' = JInt n \<longrightarrow>
              statements time_table_insert new ! i =
                [JTime (n * 1000000), JInt (hour_of (n * 1000000)), JInt (day_of (n * 1000000)),
                 JInt (week_of (n * 1000000)), JInt (month_of (n * 1000000)),
                 JInt (year_of (n * 1000000)), JInt (weekday_of (n * 1000000))]"
    by blast
  from f have evs: "evs = [ev_home, ev_play]"
    by (simp add: l1_file)
  from row [unfolded evs l1_survivors, rule_format, of 0 1541121934796] ev_play_ts have
    "statements time_table_insert new ! 0 =
       [JTime (1541121934796 * 1000000), JInt (hour_of (1541121934796 * 1000000)),
        JInt (day_of (1541121934796 * 1000000)), JInt (week_of (1541121934796 * 1000000)),
        JInt (month_of (1541121934796 * 1000000)), JInt (year_of (1541121934796 * 1000000)),
        JInt (weekday_of (1541121934796 * 1000000))]"
    by simp
  moreover have "statements time_table_insert new ! 0 =
     [JTime 1541121934796000000, JInt 1, JInt 2, JInt 44, JInt 11, JInt 2018, JInt 4]"
    unfolding new [simplified, symmetric] by simp
  ultimately show ?thesis using l1_run by simp
qed

lemma l2_file:
  "lookup_node disk [''data'', ''log_data'', ''l2.json'']
     = Some (File (Lines [ev_play, ev_home, ev_play]))"
  by code_simp

lemma l2_survivors: "filter is_next_song [ev_play, ev_home, ev_play] = [ev_play, ev_play]"
  by code_simp

lemma l2_run: "process_log_file quiet_db disk [''data'', ''log_data'', ''l2.json''] [] = Done l2_calls"
  by code_simp

lemma l2_rerun:
  "process_log_file quiet_db disk [''data'', ''log_data'', ''l2.json''] l2_calls
     = Done (l2_calls @ l2_calls)"
  by code_simp

text \<open>
  C9. In a completed run, the song-play row sent for a surviving event starts with the same
  timestamp as the time row sent for that event: each is the conversion of the event's
  \<open>ts\<close>, which the code computes once for the column and once more for the row.
\<close>

theorem songplay_start_is_time_row_timestamp:
  assumes "process_log_file b fs p tr = Done tr'"
  shows "\<exists>evs new.
           lookup_node fs p = Some (File (Lines evs)) \<and> tr' = tr @ new \<and>
           length (statements time_table_insert new) = length (filter is_next_song evs) \<and>
           length (statements songplay_table_insert new) = length (filter is_next_song evs) \<and>
           (\<forall>i < length (filter is_next_song evs).
              to_datetime_ms (cell (filter is_next_song evs ! i) ''ts'')
                = Inr (hd (statements time_table_insert new ! i)) \<and>
              hd (statements songplay_table_insert new ! i)
                = hd (statements time_table_insert new ! i))"
proof -
  from process_log_file_Done [OF assms] obtain evs ts ids where
    f: "lookup_node fs p = Some (File (Lines evs))" and
    c: "list_all2 (\<lambda>r t. to_datetime_ms (cell r ''ts'') = Inr t) (filter is_next_song evs) ts" and
    n: "length ids = length (filter is_next_song evs)" and
    e: "tr' = tr @ log_calls (filter is_next_song evs) ts ids"
    by blast
  have lt: "length ts = length (filter is_next_song evs)"
    using c by (simp add: list_all2_lengthD)
  note st = statements_log_calls [OF lt n]
  show ?thesis
  proof (intro exI conjI allI impI)
    show "lookup_node fs p = Some (File (Lines evs))" by (rule f)
    show "tr' = tr @ log_calls (filter is_next_song evs) ts ids" by (rule e)
    show "length (statements time_table_insert (log_calls (filter is_next_song evs) ts ids))
            = length (filter is_next_song evs)"
      by (simp add: st(1) lt)
    show "length (statements songplay_table_insert (log_calls (filter is_next_song evs) ts ids))
            = length (filter is_next_song evs)"
      by (simp add: st(4) lt n)
  next
    fix i assume i: "i < length (filter is_next_song evs)"
    show "to_datetime_ms (cell (filter is_next_song evs ! i) ''ts'')
            = Inr (hd (statements time_table_insert (log_calls (filter is_next_song evs) ts ids) ! i))"
      using c i lt by (simp add: st(1) time_row_def list_all2_conv_all_nth)
    show "hd (statements songplay_table_insert (log_calls (filter is_next_song evs) ts ids) ! i)
            = hd (statements time_table_insert (log_calls (filter is_next_song evs) ts ids) ! i)"
      using i lt n by (simp add: st(1) st(4) time_row_def songplay_row_def split: prod.splits)
  qed
qed

theorem songplay_start_is_time_row_timestamp_witness:
  "process_log_file quiet_db disk [''data'', ''log_data'', ''l2.json''] [] = Done l2_calls \<and>
   hd (statements songplay_table_insert l2_calls ! 1) = hd (statements time_table_insert l2_calls ! 1) \<and>
   to_datetime_ms (cell ev_play ''ts'') = Inr (hd (statements time_table_insert l2_calls ! 1))"
proof -
  from songplay_start_is_time_row_timestamp [OF l2_run] obtain evs new where
    f: "lookup_node disk [''data'', ''log_data'', ''l2.json''] = Some (File (Lines evs))" and
    new: "l2_calls = [] @ new" and
    eq: "\<forall>i < length (filter is_next_song evs).
              to_datetime_ms (cell (filter is_next_song evs ! i) ''ts'')
                = Inr (hd (statements time_table_insert new ! i)) \<and>
              hd (statements songplay_table_insert new ! i)
                = hd (statements time_table_insert new ! i)"
    by blast
  from f have evs: "evs = [ev_play, ev_home, ev_play]"
    by (simp add: l2_file)
  from new have new': "new = l2_calls" by simp
  from eq [unfolded evs l2_survivors new', rule_format, of 1] show ?thesis
    using l2_run by simp
qed

text \<open>
  C5. When a log file is processed a second time, at any later point, the second pass
  sends the time rows of the first pass again, one for each surviving event whether or not
  two events share a timestamp, and the user rows of the first pass again, with the same
  \<open>userId\<close> keys.
  It sends as many song-play rows as the first pass, equal to them in every column but the
  two identifiers that were looked up; when the answer to a lookup depends on that lookup
  alone, the second pass repeats the calls of the first exactly.
\<close>

theorem log_file_twice:
  assumes "process_log_file b fs p tr = Done tr1"
    and "process_log_file b fs p later = Done tr2"
  shows "\<exists>evs new1 new2.
           lookup_node fs p = Some (File (Lines evs)) \<and> tr1 = tr @ new1 \<and> tr2 = later @ new2 \<and>
           statements time_table_insert new2 = statements time_table_insert new1 \<and>
           length (statements time_table_insert new1) = length (filter is_next_song evs) \<and>
           statements user_table_insert new2 = statements user_table_insert new1 \<and>
           map hd (statements user_table_insert new1)
             = map (\<lambda>r. cell r ''userId'') (filter is_next_song evs) \<and>
           length (statements songplay_table_insert new1) = length (filter is_next_song evs) \<and>
           map (\<lambda>ps. take 3 ps @ drop 5 ps) (statements songplay_table_insert new2)
             = map (\<lambda>ps. take 3 ps @ drop 5 ps) (statements songplay_table_insert new1) \<and>
           ((\<forall>t t' c. fetchone b (t @ [c]) = fetchone b (t' @ [c])) \<longrightarrow> new2 = new1)"
proof -
  from process_log_file_Done [OF assms(1)] obtain evs ts ids where
    f: "lookup_node fs p = Some (File (Lines evs))" and
    c: "list_all2 (\<lambda>r t. to_datetime_ms (cell r ''ts'') = Inr t) (filter is_next_song evs) ts" and
    n: "length ids = length (filter is_next_song evs)" and
    a: "list_all2 (\<lambda>r sa. \<exists>pre res.
               fetchone b (pre @ [Execute song_select (lookup_key r)]) = Inr res \<and>
               resolve res = Inr sa) (filter is_next_song evs) ids" and
    e: "tr1 = tr @ log_calls (filter is_next_song evs) ts ids"
    by blast
  from process_log_file_Done [OF assms(2)] f obtain ts' ids' where
    c': "list_all2 (\<lambda>r t. to_datetime_ms (cell r ''ts'') = Inr t) (filter is_next_song evs) ts'" and
    n': "length ids' = length (filter is_next_song evs)" and
    a': "list_all2 (\<lambda>r sa. \<exists>pre res.
               fetchone b (pre @ [Execute song_select (lookup_key r)]) = Inr res \<and>
               resolve res = Inr sa) (filter is_next_song evs) ids'" and
    e': "tr2 = later @ log_calls (filter is_next_song evs) ts' ids'"
    by auto
  have ts: "ts' = ts" using converted_unique [OF c' c] .
  have lt: "length ts = length (filter is_next_song evs)"
    using c by (simp add: list_all2_lengthD)
  note st = statements_log_calls [OF lt n]
  note st' = statements_log_calls [OF lt n']
  have proj: "map (\<lambda>ps. take 3 ps @ drop 5 ps)
                (map (\<lambda>(r, t, s, a). songplay_row t r s a) (zip S (zip ts xs)))
              = map (\<lambda>(r, t). [t, cell r ''userId'', cell r ''level'', cell r ''sessionId'',
                                  cell r ''location'', cell r ''userAgent'']) (zip S ts)"
    if "length xs = length S" "length ts = length S" for xs :: "(jval \<times> jval) list" and S ts
    using that
  proof (induction S arbitrary: xs ts)
    case Nil
    then show ?case by simp
  next
    case (Cons r S)
    then show ?case
      by (cases xs; cases ts) (auto simp: songplay_row_def)
  qed
  have same: "ids' = ids" if st: "\<forall>t t' c. fetchone b (t @ [c]) = fetchone b (t' @ [c])"
  proof (rule nth_equalityI)
    show "length ids' = length ids" by (simp add: n n')
  next
    fix i assume i: "i < length ids'"
    let ?r = "filter is_next_song evs ! i"
    from a i n' obtain pre res where
      1: "fetchone b (pre @ [Execute song_select (lookup_key ?r)]) = Inr res"
         "resolve res = Inr (ids ! i)"
      by (auto simp: list_all2_conv_all_nth)
    from a' i n' obtain pre' res' where
      2: "fetchone b (pre' @ [Execute song_select (lookup_key ?r)]) = Inr res'"
         "resolve res' = Inr (ids' ! i)"
      by (auto simp: list_all2_conv_all_nth)
    from st have "fetchone b (pre @ [Execute song_select (lookup_key ?r)])
                  = fetchone b (pre' @ [Execute song_select (lookup_key ?r)])"
      by blast
    with 1 2 show "ids' ! i = ids ! i" by simp
  qed
  show ?thesis
  proof (intro exI conjI impI)
    show "lookup_node fs p = Some (File (Lines evs))" by (rule f)
    show "tr1 = tr @ log_calls (filter is_next_song evs) ts ids" by (rule e)
    show "tr2 = later @ log_calls (filter is_next_song evs) ts ids'"
      using e' by (simp add: ts)
    show "statements time_table_insert (log_calls (filter is_next_song evs) ts ids')
            = statements time_table_insert (log_calls (filter is_next_song evs) ts ids)"
      by (simp add: st(1) st'(1))
    show "length (statements time_table_insert (log_calls (filter is_next_song evs) ts ids))
            = length (filter is_next_song evs)"
      by (simp add: st(1) lt)
    show "statements user_table_insert (log_calls (filter is_next_song evs) ts ids')
            = statements user_table_insert (log_calls (filter is_next_song evs) ts ids)"
      by (simp add: st(2) st'(2))
    show "map hd (statements user_table_insert (log_calls (filter is_next_song evs) ts ids))
            = map (\<lambda>r. cell r ''userId'') (filter is_next_song evs)"
      by (simp add: st(2) user_row_def user_cols_def)
    show "length (statements songplay_table_insert (log_calls (filter is_next_song evs) ts ids))
            = length (filter is_next_song evs)"
      by (simp add: st(4) lt n)
    show "map (\<lambda>ps. take 3 ps @ drop 5 ps)
            (statements songplay_table_insert (log_calls (filter is_next_song evs) ts ids'))
          = map (\<lambda>ps. take 3 ps @ drop 5 ps)
            (statements songplay_table_insert (log_calls (filter is_next_song evs) ts ids))"
      unfolding st(4) st'(4) using proj [OF n lt] proj [OF n' lt] by simp
  next
    assume "\<forall>t t' c. fetchone b (t @ [c]) = fetchone b (t' @ [c])"
    then show "log_calls (filter is_next_song evs) ts ids' = log_calls (filter is_next_song evs) ts ids"
      by (simp add: same)
  qed
qed

theorem log_file_twice_witness:
  "process_log_file quiet_db disk [''data'', ''log_data'', ''l2.json''] [] = Done l2_calls \<and>
   process_log_file quiet_db disk [''data'', ''log_data'', ''l2.json''] l2_calls
     = Done (l2_calls @ l2_calls) \<and>
   (\<forall>t t' c. fetchone quiet_db (t @ [c]) = fetchone quiet_db (t' @ [c])) \<and>
   (\<exists>new. l2_calls = [] @ new \<and> l2_calls @ l2_calls = l2_calls @ new \<and>
      length (statements time_table_insert new) = 2)"
proof -
  have stable: "\<forall>t t' c. fetchone quiet_db (t @ [c]) = fetchone quiet_db (t' @ [c])"
    by (simp add: quiet_db_def)
  from log_file_twice [OF l2_run l2_rerun] obtain evs new1 new2 where
    f: "lookup_node disk [''data'', ''log_data'', ''l2.json''] = Some (File (Lines evs))" and
    1: "l2_calls = [] @ new1" and 2: "l2_calls @ l2_calls = l2_calls @ new2" and
    n: "length (statements time_table_insert new1) = length (filter is_next_song evs)" and
    s: "(\<forall>t t' c. fetchone quiet_db (t @ [c]) = fetchone quiet_db (t' @ [c])) \<longrightarrow> new2 = new1"
    by blast
  from f have evs: "evs = [ev_play, ev_home, ev_play]"
    by (simp add: l2_file)
  from s stable have "new2 = new1" by blast
  with 1 2 n show ?thesis
    unfolding evs l2_survivors using l2_run l2_rerun stable
    by (intro conjI exI [of _ new1]) simp_all
qed

text \<open>
  C2. The body of the song-play loop, which runs once for each surviving event, sends the
  lookup with the event's song title, artist name and duration. When nothing else fails
  (the columns exist, the timestamp converts, the database accepts the two statements):
  if the lookup returns no row the song-play insert is sent with both identifiers null and
  the body completes; if it returns a row of two columns, both identifiers are those two
  columns. Whenever the body completes, the identifiers sent are the ones the lookup gave.
\<close>

theorem lookup_decides_ids:
  assumes "set songplay_cols \<subseteq> set (columns df)"
    and "to_datetime_ms (cell row ''ts'') = Inr t"
    and "raises b tr (Execute song_select (lookup_key row)) = None"
    and "\<forall>s a. raises b (tr @ [Execute song_select (lookup_key row)])
                 (Execute songplay_table_insert (songplay_row t row s a)) = None"
  shows "(fetchone b (tr @ [Execute song_select (lookup_key row)]) = Inr None \<longrightarrow>
            songplay_body b df row tr =
              Done (tr @ [Execute song_select (lookup_key row),
                          Execute songplay_table_insert (songplay_row t row JNull JNull)])) \<and>
         (\<forall>s a. fetchone b (tr @ [Execute song_select (lookup_key row)]) = Inr (Some [s, a]) \<longrightarrow>
            songplay_body b df row tr =
              Done (tr @ [Execute song_select (lookup_key row),
                          Execute songplay_table_insert (songplay_row t row s a)])) \<and>
         (\<forall>tr'. songplay_body b df row tr = Done tr' \<longrightarrow>
            (\<exists>res s a. fetchone b (tr @ [Execute song_select (lookup_key row)]) = Inr res \<and>
               resolve res = Inr (s, a) \<and>
               tr' = tr @ [Execute song_select (lookup_key row),
                           Execute songplay_table_insert (songplay_row t row s a)]))"
proof (intro conjI allI impI)
  assume "fetchone b (tr @ [Execute song_select (lookup_key row)]) = Inr None"
  with assms show "songplay_body b df row tr =
      Done (tr @ [Execute song_select (lookup_key row),
                  Execute songplay_table_insert (songplay_row t row JNull JNull)])"
    by (simp add: songplay_body_Done play_pair_def)
next
  fix s a
  assume "fetchone b (tr @ [Execute song_select (lookup_key row)]) = Inr (Some [s, a])"
  with assms show "songplay_body b df row tr =
      Done (tr @ [Execute song_select (lookup_key row),
                  Execute songplay_table_insert (songplay_row t row s a)])"
    by (simp add: songplay_body_Done play_pair_def)
next
  fix tr'
  assume "songplay_body b df row tr = Done tr'"
  with assms(2) show "\<exists>res s a. fetchone b (tr @ [Execute song_select (lookup_key row)]) = Inr res \<and>
               resolve res = Inr (s, a) \<and>
               tr' = tr @ [Execute song_select (lookup_key row),
                           Execute songplay_table_insert (songplay_row t row s a)]"
    by (auto simp: songplay_body_Done play_pair_def)
qed

theorem lookup_decides_ids_witness:
  "songplay_body quiet_db log_frame ev_play [] =
     Done [Execute song_select (lookup_key ev_play),
           Execute songplay_table_insert (songplay_row play_time ev_play JNull JNull)] \<and>
   songplay_body (catalog_db catalog) log_frame ev_play [] =
     Done [Execute song_select (lookup_key ev_play),
           Execute songplay_table_insert
             (songplay_row play_time ev_play (JStr ''S1'') (JStr ''A1''))]"
proof -
  have cols: "set songplay_cols \<subseteq> set (columns log_frame)"
    by code_simp
  have conv: "to_datetime_ms (cell ev_play ''ts'') = Inr play_time"
    by code_simp
  have q1: "raises quiet_db [] (Execute song_select (lookup_key ev_play)) = None"
    and q2: "\<forall>s a. raises quiet_db ([] @ [Execute song_select (lookup_key ev_play)])
                 (Execute songplay_table_insert (songplay_row play_time ev_play s a)) = None"
    and q3: "fetchone quiet_db ([] @ [Execute song_select (lookup_key ev_play)]) = Inr None"
    by (simp_all add: quiet_db_def)
  have c1: "raises (catalog_db catalog) [] (Execute song_select (lookup_key ev_play)) = None"
    and c2: "\<forall>s a. raises (catalog_db catalog) ([] @ [Execute song_select (lookup_key ev_play)])
                 (Execute songplay_table_insert (songplay_row play_time ev_play s a)) = None"
    by (simp_all add: catalog_db_def)
  have c3: "fetchone (catalog_db catalog) ([] @ [Execute song_select (lookup_key ev_play)])
              = Inr (Some [JStr ''S1'', JStr ''A1''])"
    by code_simp
  note none = lookup_decides_ids [OF cols conv q1 q2, THEN conjunct1, rule_format, OF q3]
  note some = lookup_decides_ids [OF cols conv c1 c2, THEN conjunct2, THEN conjunct1,
                rule_format, OF c3]
  from none some show ?thesis
    unfolding append_Nil by (rule conjI)
qed

section \<open>The loader\<close>

lemma json_free_no_names: "json_free es \<Longrightarrow> filter (\<lambda>e. json_name (fst e)) es = []"
  by (induction es rule: json_free.induct) auto

lemma json_free_walk_subdirs: "json_free es \<Longrightarrow> walk_subdirs rt es = []"
  by (induction es arbitrary: rt rule: json_free.induct) (auto simp: json_free_no_names)

lemma json_free_walk: "json_free es \<Longrightarrow> walk rt es = []"
  by (simp add: json_free_no_names json_free_walk_subdirs)

text \<open>
  C7. Over a root directory in which no entry, at any depth, has a name that the pattern
  \<open>*.json\<close> matches, the loader completes, whatever the extractor and the database are.
  It prints that 0 files were found and does nothing else: no extractor call, no statement,
  no commit.
\<close>

theorem no_json_nothing_loaded:
  assumes "lookup_node fs (cwd @ filepath) = Some (Dir es)" and "json_free es"
  shows "process_data b fs cwd filepath func tr =
           Done (tr @ [Print (''0 files found in '' @ show_path filepath)])"
  using assms
  by (simp add: process_data_def all_files_def json_free_walk found_line_def enumerate_simps
        del: walk.simps)

theorem no_json_nothing_loaded_witness:
  "lookup_node disk ([] @ [''data'', ''empty''])
     = Some (Dir [(''sub'', Dir []), (''notes.txt'', File Malformed)]) \<and>
   json_free [(''sub'', Dir []), (''notes.txt'', File Malformed)] \<and>
   process_data quiet_db disk [] [''data'', ''empty''] (process_song_file quiet_db disk) [] =
     Done [Print ''0 files found in data/empty'']"
proof -
  have at: "lookup_node disk ([] @ [''data'', ''empty''])
     = Some (Dir [(''sub'', Dir []), (''notes.txt'', File Malformed)])"
    by code_simp
  have free: "json_free [(''sub'', Dir []), (''notes.txt'', File Malformed)]"
    by code_simp
  from no_json_nothing_loaded [OF at free, of quiet_db "process_song_file quiet_db disk" "[]"]
  show ?thesis using at free by simp
qed

lemma load_one_Done:
  "load_one b func n (i, f) t = Done t' \<longleftrightarrow>
     (\<exists>u. func f t = Done u \<and> raises b u Commit = None \<and>
          t' = u @ [Commit, Print (progress_line i n)])"
  by (auto simp: load_one_def and_then_Done perform_Done)

lemma load_one_Raised:
  "load_one b func n (i, f) t = Raised e t' \<longleftrightarrow>
     func f t = Raised e t' \<or>
     (\<exists>u. func f t = Done u \<and> raises b u Commit = Some e \<and> t' = u @ [Commit])"
  by (cases "func f t") (auto simp: load_one_def perform_def split: option.splits)

lemma load_loop_Done:
  "for_each (load_one b func n) (enumerate i fs) t = Done t' \<longleftrightarrow> loads b func n i fs t t'"
proof
  show "for_each (load_one b func n) (enumerate i fs) t = Done t' \<Longrightarrow> loads b func n i fs t t'"
  proof (induction fs arbitrary: i t)
    case Nil
    then show ?case by (simp add: loads_Nil)
  next
    case (Cons f fs)
    from Cons.prems obtain u where
      u: "func f t = Done u" "raises b u Commit = None" and
      r: "for_each (load_one b func n) (enumerate (Suc i) fs)
            (u @ [Commit, Print (progress_line i n)]) = Done t'"
      by (auto simp: and_then_Done load_one_Done)
    from u Cons.IH [OF r] show ?case by (rule loads_Cons)
  qed
next
  show "loads b func n i fs t t' \<Longrightarrow> for_each (load_one b func n) (enumerate i fs) t = Done t'"
    by (induction rule: loads.induct) (simp_all add: load_one_def perform_def)
qed

lemma load_loop_Raised:
  "for_each (load_one b func n) (enumerate i fs) t = Raised e t' \<Longrightarrow>
     \<exists>done f rest u. fs = done @ f # rest \<and> loads b func n i done t u \<and>
       (func f u = Raised e t' \<or>
        (\<exists>v. func f u = Done v \<and> raises b v Commit = Some e \<and> t' = v @ [Commit]))"
proof (induction fs arbitrary: i t)
  case Nil
  then show ?case by simp
next
  case (Cons f fs)
  show ?case
  proof (cases "load_one b func n (i, f) t")
    case (Raised e' u)
    with Cons.prems have "load_one b func n (i, f) t = Raised e t'" by simp
    then have "func f t = Raised e t' \<or>
        (\<exists>v. func f t = Done v \<and> raises b v Commit = Some e \<and> t' = v @ [Commit])"
      by (simp add: load_one_Raised)
    then show ?thesis
      by (intro exI [of _ "[]"] exI [of _ f] exI [of _ fs] exI [of _ t]) (simp add: loads_Nil)
  next
    case (Done t1)
    with Cons.prems have r: "for_each (load_one b func n) (enumerate (Suc i) fs) t1 = Raised e t'"
      by simp
    from Done obtain u where u: "func f t = Done u" "raises b u Commit = None"
      and t1: "t1 = u @ [Commit, Print (progress_line i n)]"
      by (auto simp: load_one_Done)
    from Cons.IH [OF r] obtain dn g rest w where
      fs: "fs = dn @ g # rest" and l: "loads b func n (Suc i) dn t1 w" and
      g: "func g w = Raised e t' \<or>
        (\<exists>v. func g w = Done v \<and> raises b v Commit = Some e \<and> t' = v @ [Commit])"
      by blast
    have "loads b func n i (f # dn) t w"
      using u l unfolding t1 by (rule loads_Cons)
    with fs g show ?thesis
      by (intro exI [of _ "f # dn"] exI [of _ g] exI [of _ rest] exI [of _ w]) simp
  qed
qed

text \<open>
  C6. A run of the loader completes exactly when, after the line that reports the number of
  files found, each discovered file in discovery order is extracted, then committed, then
  reported with its number out of the total, as \<open>loads\<close> says. A run that raises has done
  so for the files before some file \<open>f\<close>; then either the extractor raised on \<open>f\<close>, and
  the run ends with the extractor's own record, with no commit after it, or the extractor
  completed and the commit that followed raised.
\<close>

theorem loader_commits_after_each_file:
  "(process_data b fs cwd filepath func tr = Done tr' \<longleftrightarrow>
      loads b func (length (all_files fs cwd filepath)) 1 (all_files fs cwd filepath)
        (tr @ [Print (found_line (length (all_files fs cwd filepath)) filepath)]) tr') \<and>
   (process_data b fs cwd filepath func tr = Raised e tr' \<longrightarrow>
      (\<exists>done f rest u. all_files fs cwd filepath = done @ f # rest \<and>
         loads b func (length (all_files fs cwd filepath)) 1 done
           (tr @ [Print (found_line (length (all_files fs cwd filepath)) filepath)]) u \<and>
         (func f u = Raised e tr' \<or>
          (\<exists>v. func f u = Done v \<and> raises b v Commit = Some e \<and> tr' = v @ [Commit]))))"
  by (auto simp: process_data_def Let_def load_loop_Done dest!: load_loop_Raised)

lemma song_files:
  "all_files disk [] [''data'', ''song_data''] =
     [[''data'', ''song_data'', ''two.json''], [''data'', ''song_data'', ''A'', ''s1.json'']]"
  by code_simp

lemma log_files:
  "all_files disk [] [''data'', ''log_data''] =
     [[''data'', ''log_data'', ''l1.json''], [''data'', ''log_data'', ''l2.json''],
      [''data'', ''log_data'', ''bad.json'']]"
  by code_simp

lemma song_pass_run:
  "process_data quiet_db disk [] [''data'', ''song_data''] (process_song_file quiet_db disk) []
     = Done song_pass"
  by code_simp

lemma log_pass_run:
  "process_data quiet_db disk [] [''data'', ''log_data''] (process_log_file quiet_db disk) []
     = Raised ParseError log_pass"
  by code_simp

theorem loader_commits_after_each_file_witness:
  "process_data quiet_db disk [] [''data'', ''song_data''] (process_song_file quiet_db disk) []
     = Done song_pass \<and>
   loads quiet_db (process_song_file quiet_db disk) 2 1
     [[''data'', ''song_data'', ''two.json''], [''data'', ''song_data'', ''A'', ''s1.json'']]
     [Print (found_line 2 [''data'', ''song_data''])] song_pass \<and>
   process_data quiet_db disk [] [''data'', ''log_data''] (process_log_file quiet_db disk) []
     = Raised ParseError log_pass \<and>
   (\<exists>done f rest u.
      [[''data'', ''log_data'', ''l1.json''], [''data'', ''log_data'', ''l2.json''],
       [''data'', ''log_data'', ''bad.json'']] = done @ f # rest \<and>
      loads quiet_db (process_log_file quiet_db disk) 3 1 done
        [Print (found_line 3 [''data'', ''log_data''])] u \<and>
      (process_log_file quiet_db disk f u = Raised ParseError log_pass \<or>
       (\<exists>v. process_log_file quiet_db disk f u = Done v \<and>
            raises quiet_db v Commit = Some ParseError \<and> log_pass = v @ [Commit])))"
proof -
  note song = loader_commits_after_each_file
    [where b = quiet_db and fs = disk and cwd = "[]" and filepath = "[''data'', ''song_data'']"
       and func = "process_song_file quiet_db disk" and tr = "[]" and tr' = song_pass,
     THEN conjunct1, THEN iffD1, OF song_pass_run, unfolded song_files]
  note log = loader_commits_after_each_file
    [where b = quiet_db and fs = disk and cwd = "[]" and filepath = "[''data'', ''log_data'']"
       and func = "process_log_file quiet_db disk" and tr = "[]" and tr' = log_pass
       and e = ParseError,
     THEN conjunct2, rule_format, OF log_pass_run, unfolded log_files]
  from song log show ?thesis
    using song_pass_run log_pass_run by (simp add: numeral_2_eq_2 numeral_3_eq_3)
qed

section \<open>The driver\<close>

text \<open>Every operation only adds calls at the end of the record.\<close>

lemma trace_of_perform [simp]: "trace_of (perform b c tr) = tr @ [c]"
  by (simp add: perform_def split: option.splits)

lemma extends_Done [simp]: "extends A tr (Done (tr @ new)) \<longleftrightarrow> set new \<subseteq> A"
  by (auto simp: extends_def)

lemma extends_same [simp]: "extends A tr (Done tr)" "extends A tr (Raised e tr)"
  by (simp_all add: extends_def)

lemma extends_perform: "c \<in> A \<Longrightarrow> extends A tr (perform b c tr)"
  by (simp add: extends_def)

lemma extends_trans:
  "extends A tr (Done t) \<Longrightarrow> extends A t out \<Longrightarrow> extends A tr out"
  by (auto simp: extends_def)

lemma extends_need:
  "(\<And>v. x = Inr v \<Longrightarrow> extends A tr (k v)) \<Longrightarrow> extends A tr (need x tr k)"
  by (cases x) simp_all

lemma extends_and_then:
  "extends A tr r \<Longrightarrow> (\<And>t. r = Done t \<Longrightarrow> extends A t (k t)) \<Longrightarrow>
     extends A tr (and_then r k)"
  by (cases r) (auto intro: extends_trans)

lemma extends_for_each:
  "(\<And>x t. extends A t (body x t)) \<Longrightarrow> extends A tr (for_each body xs tr)"
  by (induction xs arbitrary: tr) (auto intro: extends_and_then)

lemma extends_mono: "extends A tr out \<Longrightarrow> A \<subseteq> B \<Longrightarrow> extends B tr out"
  by (auto simp: extends_def)

lemma extends_pair:
  "(\<And>x y. extends A tr (k x y)) \<Longrightarrow> extends A tr (case v of (x, y) \<Rightarrow> k x y)"
  by (cases v) simp

lemma extends_process_song_file:
  "extends {c. is_execute c} tr (process_song_file b fs p tr)"
  unfolding process_song_file_def
  by (auto simp: extends_def perform_def split: sum.splits list.splits outcome.splits option.splits)

lemma extends_songplay_body:
  "extends {c. is_execute c} tr (songplay_body b df row tr)"
  unfolding songplay_body_def
  by (intro extends_need extends_and_then extends_perform extends_pair | simp)+

lemma extends_process_log_file:
  "extends {c. is_execute c} tr (process_log_file b fs p tr)"
  unfolding process_log_file_def
  by (intro extends_need extends_and_then extends_perform extends_for_each
        extends_songplay_body | simp)+

lemma extends_process_data:
  assumes "\<And>f t. extends A t (func f t)" and "Commit \<in> A" and "\<And>s. Print s \<in> A"
  shows "extends A tr (process_data b fs cwd p func tr)"
proof -
  have one: "extends A t (load_one b func n x t)" for n x t
    unfolding load_one_def
    by (intro extends_and_then assms(1) extends_perform assms(2)) (simp add: assms)
  have "extends A tr (Done (tr @ [Print (found_line (length (all_files fs cwd p)) p)]))"
    by (simp add: assms)
  moreover have "extends A (tr @ [Print (found_line (length (all_files fs cwd p)) p)])
      (process_data b fs cwd p func tr)"
    unfolding process_data_def Let_def by (rule extends_for_each) (rule one)
  ultimately show ?thesis by (rule extends_trans)
qed

lemma no_close_in_pass:
  assumes "\<And>f t. extends {c. is_execute c} t (func f t)" and "Close \<notin> set tr"
  shows "Close \<notin> set (trace_of (process_data b fs cwd p func tr))"
proof -
  have "extends {c. c \<noteq> Close} tr (process_data b fs cwd p func tr)"
  proof (rule extends_process_data)
    fix f t show "extends {c. c \<noteq> Close} t (func f t)"
      by (rule extends_mono [OF assms(1)]) auto
  qed simp_all
  with assms(2) show ?thesis by (auto simp: extends_def)
qed

text \<open>
  C8. Once the connection and the cursor are open, \<open>main\<close> calls \<open>close\<close> exactly when
  the loader completes over the song data and then over the log data. If either pass
  raises, \<open>main\<close> raises the same error with the record as that pass left it, in which
  there is no call to \<open>close\<close>.
\<close>

theorem close_iff_both_passes_complete:
  assumes "raises b [] (Connect dsn) = None" and "raises b [Connect dsn] Cursor = None"
  shows "(Close \<in> set (trace_of (main b fs cwd)) \<longleftrightarrow>
            (\<exists>t2 t3.
               process_data b fs cwd [''data'', ''song_data''] (process_song_file b fs)
                 [Connect dsn, Cursor] = Done t2 \<and>
               process_data b fs cwd [''data'', ''log_data''] (process_log_file b fs) t2
                 = Done t3)) \<and>
         (\<forall>e t. process_data b fs cwd [''data'', ''song_data''] (process_song_file b fs)
                  [Connect dsn, Cursor] = Raised e t \<longrightarrow>
                main b fs cwd = Raised e t) \<and>
         (\<forall>e t t2. process_data b fs cwd [''data'', ''song_data''] (process_song_file b fs)
                     [Connect dsn, Cursor] = Done t2 \<and>
                   process_data b fs cwd [''data'', ''log_data''] (process_log_file b fs) t2
                     = Raised e t \<longrightarrow>
                main b fs cwd = Raised e t)"
proof -
  let ?song = "process_data b fs cwd [''data'', ''song_data''] (process_song_file b fs)
                 [Connect dsn, Cursor]"
  let ?log = "process_data b fs cwd [''data'', ''log_data''] (process_log_file b fs)"
  have m: "main b fs cwd = and_then ?song (\<lambda>tr. and_then (?log tr) (\<lambda>tr. perform b Close tr))"
    using assms by (simp add: main_def perform_def)
  have s: "Close \<notin> set (trace_of ?song)"
    by (rule no_close_in_pass) (simp_all add: extends_process_song_file)
  have l: "Close \<notin> set (trace_of (?log t))" if "Close \<notin> set t" for t
    using that by (rule no_close_in_pass [rotated]) (simp add: extends_process_log_file)
  show ?thesis
  proof (cases ?song)
    case (Raised e t)
    with s show ?thesis by (simp add: m)
  next
    case song: (Done t2)
    show ?thesis
    proof (cases "?log t2")
      case (Raised e t)
      with song s l [of t2] show ?thesis by (simp add: m)
    next
      case (Done t3)
      with song show ?thesis by (simp add: m)
    qed
  qed
qed

lemma quiet_connects:
  "raises quiet_db [] (Connect dsn) = None" "raises quiet_db [Connect dsn] Cursor = None"
  by (simp_all add: quiet_db_def)

lemma small_disk_closed: "Close \<in> set (trace_of (main quiet_db small_disk []))"
  by code_simp

lemma disk_song_pass:
  "process_data quiet_db disk [] [''data'', ''song_data''] (process_song_file quiet_db disk)
     [Connect dsn, Cursor] = Done ([Connect dsn, Cursor] @ song_pass)"
  by code_simp

lemma disk_log_pass:
  "process_data quiet_db disk [] [''data'', ''log_data''] (process_log_file quiet_db disk)
     ([Connect dsn, Cursor] @ song_pass)
     = Raised ParseError ([Connect dsn, Cursor] @ song_pass @ log_pass)"
  by code_simp

lemma disk_not_closed: "Close \<notin> set ([Connect dsn, Cursor] @ song_pass @ log_pass)"
  by code_simp

theorem close_iff_both_passes_complete_witness:
  "raises quiet_db [] (Connect dsn) = None \<and> raises quiet_db [Connect dsn] Cursor = None \<and>
   Close \<in> set (trace_of (main quiet_db small_disk [])) \<and>
   (\<exists>t2 t3.
      process_data quiet_db small_disk [] [''data'', ''song_data'']
        (process_song_file quiet_db small_disk) [Connect dsn, Cursor] = Done t2 \<and>
      process_data quiet_db small_disk [] [''data'', ''log_data'']
        (process_log_file quiet_db small_disk) t2 = Done t3) \<and>
   main quiet_db disk [] = Raised ParseError ([Connect dsn, Cursor] @ song_pass @ log_pass) \<and>
   Close \<notin> set ([Connect dsn, Cursor] @ song_pass @ log_pass)"
proof -
  note ok = close_iff_both_passes_complete [OF quiet_connects, of small_disk "[]",
              THEN conjunct1, THEN iffD1, OF small_disk_closed]
  note bad = close_iff_both_passes_complete [OF quiet_connects, of disk "[]",
               THEN conjunct2, THEN conjunct2, rule_format,
               OF conjI [OF disk_song_pass disk_log_pass]]
  show ?thesis
    using quiet_connects small_disk_closed ok bad disk_not_closed by (intro conjI)
qed

end
